theory Spec2Isabelle
  imports Main
begin

section \<open>Parsed documents and the Python primitives the validator uses\<close>

text \<open>
  The validator of \<^verbatim>\<open>.specify/scripts/validate-openapi.py\<close> works on the tree that
  \<^verbatim>\<open>yaml.safe_load\<close> returns and on the raw text of the file. A tree node is a scalar,
  a list or a dict. Dict keys are hashable, so they are scalars. A dict is kept as the
  list of its items in iteration order (the keys of a dict are distinct; no result below
  needs it). A float (or a timestamp) is carried by the text
  that \<^verbatim>\<open>str()\<close> gives for it: the validator never computes with one. Binary and set
  nodes are not part of the model. Text is a list of 8-bit characters, the bytes of
  its UTF-8 form; the patterns and names the validator looks for are ASCII.
\<close>

datatype scalar = SNull | SBool bool | SInt int | SFloat string | SStr string

datatype yaml = YScalar scalar | YSeq "yaml list" | YMap "(scalar \<times> yaml) list"

abbreviation YStr :: "string \<Rightarrow> yaml" where
  "YStr s \<equiv> YScalar (SStr s)"

text \<open>The exceptions the validator can raise after loading; \<open>Inl\<close> is a raise.\<close>

datatype py_error = KeyError | TypeError | AttributeError

type_synonym 'a result = "py_error + 'a"

text \<open>Lookup of a string key in the items of a dict: a string equals no other scalar.\<close>

definition dict_get :: "(scalar \<times> yaml) list \<Rightarrow> string \<Rightarrow> yaml option" where
  "dict_get kvs k = map_of kvs (SStr k)"

text \<open>\<^verbatim>\<open>isinstance(v, dict)\<close>\<close>

fun is_dict :: "yaml \<Rightarrow> bool" where
  "is_dict (YMap kvs) = True"
| "is_dict v = False"

text \<open>\<^verbatim>\<open>v[k]\<close> for a string \<open>k\<close>: KeyError on a dict without the key, TypeError on
  every other node (a list or a string takes integer indices, a scalar none).\<close>

fun py_subscript :: "yaml \<Rightarrow> string \<Rightarrow> yaml result" where
  "py_subscript (YMap kvs) k =
     (case dict_get kvs k of None \<Rightarrow> Inl KeyError | Some v \<Rightarrow> Inr v)"
| "py_subscript v k = Inl TypeError"

text \<open>\<^verbatim>\<open>v.get(k, default)\<close>: only a dict has the method.\<close>

fun py_get :: "yaml \<Rightarrow> string \<Rightarrow> yaml \<Rightarrow> yaml result" where
  "py_get (YMap kvs) k dflt =
     (case dict_get kvs k of None \<Rightarrow> Inr dflt | Some v \<Rightarrow> Inr v)"
| "py_get v k dflt = Inl AttributeError"

text \<open>\<^verbatim>\<open>v.items()\<close>\<close>

fun py_items :: "yaml \<Rightarrow> ((scalar \<times> yaml) list) result" where
  "py_items (YMap kvs) = Inr kvs"
| "py_items v = Inl AttributeError"

text \<open>\<^verbatim>\<open>k in v\<close> for a dict \<open>v\<close>\<close>

definition has_key :: "string \<Rightarrow> (scalar \<times> yaml) list \<Rightarrow> bool" where
  "has_key k kvs = (dict_get kvs k \<noteq> None)"

text \<open>\<^verbatim>\<open>for p in v\<close>: a list gives its elements, a dict its keys, a string its
  characters; no other scalar is iterable.\<close>

fun py_iter :: "yaml \<Rightarrow> (yaml list) result" where
  "py_iter (YSeq xs) = Inr xs"
| "py_iter (YMap kvs) = Inr (map (\<lambda>kv. YScalar (fst kv)) kvs)"
| "py_iter (YScalar (SStr s)) = Inr (map (\<lambda>c. YStr [c]) s)"
| "py_iter v = Inl TypeError"

text \<open>Number of positions of \<open>s\<close> at which \<open>pat\<close> occurs (overlapping occurrences
  counted one by one).\<close>

fun occurrences :: "'a list \<Rightarrow> 'a list \<Rightarrow> nat" where
  "occurrences pat [] = (if pat = [] then 1 else 0)"
| "occurrences pat (c # cs) =
     (if take (length pat) (c # cs) = pat then 1 else 0) + occurrences pat cs"

text \<open>\<^verbatim>\<open>f in v\<close> for a string \<open>f\<close>: membership in a list, key of a dict, substring of
  a string; TypeError on every other scalar.\<close>

fun py_contains :: "string \<Rightarrow> yaml \<Rightarrow> bool result" where
  "py_contains f (YSeq xs) = Inr (YStr f \<in> set xs)"
| "py_contains f (YMap kvs) = Inr (has_key f kvs)"
| "py_contains f (YScalar (SStr s)) = Inr (0 < occurrences f s)"
| "py_contains f v = Inl TypeError"

text \<open>\<^verbatim>\<open>str.upper()\<close> and \<^verbatim>\<open>str.lower()\<close> for ASCII text, which is what the fixed
  method names of checks 4 and 5 are. Python also maps the cased letters outside ASCII
  (and may change the length of the string); the functions here leave every other
  character as it is, so for a method key with such letters only the wording of the
  message of check 3 is outside the model, not whether or where a finding is made.\<close>

definition upper_char :: "char \<Rightarrow> char" where
  "upper_char c =
     (let n = (of_char c :: nat) in if 97 \<le> n \<and> n \<le> 122 then char_of (n - 32) else c)"

definition lower_char :: "char \<Rightarrow> char" where
  "lower_char c =
     (let n = (of_char c :: nat) in if 65 \<le> n \<and> n \<le> 90 then char_of (n + 32) else c)"

definition str_upper :: "string \<Rightarrow> string" where
  "str_upper s = map upper_char s"

definition str_lower :: "string \<Rightarrow> string" where
  "str_lower s = map lower_char s"

text \<open>\<^verbatim>\<open>k.upper()\<close> for a dict key: only a string has the method.\<close>

fun py_upper :: "scalar \<Rightarrow> string result" where
  "py_upper (SStr s) = Inr (str_upper s)"
| "py_upper k = Inl AttributeError"

text \<open>Decimal text of a number, as \<^verbatim>\<open>str(n)\<close> and the f-string \<^verbatim>\<open>{len(xs)}\<close> give it.\<close>

function str_nat :: "nat \<Rightarrow> string" where
  "str_nat n =
     (if n < 10 then [''0123456789'' ! n]
      else str_nat (n div 10) @ [''0123456789'' ! (n mod 10)])"
  by pat_completeness auto
termination
  by (relation "measure (\<lambda>n. n)") auto

declare str_nat.simps [simp del]

text \<open>\<^verbatim>\<open>str(k)\<close> of a dict key, as an f-string formats it.\<close>

fun py_str :: "scalar \<Rightarrow> string" where
  "py_str SNull = ''None''"
| "py_str (SBool b) = (if b then ''True'' else ''False'')"
| "py_str (SInt i) = (if i < 0 then ''-'' @ str_nat (nat (- i)) else str_nat (nat i))"
| "py_str (SFloat r) = r"
| "py_str (SStr s) = s"

text \<open>\<^verbatim>\<open>sep.join(xs)\<close>\<close>

fun join :: "string \<Rightarrow> string list \<Rightarrow> string" where
  "join sep [] = []"
| "join sep [x] = x"
| "join sep (x # y # ys) = x @ sep @ join sep (y # ys)"

text \<open>\<^verbatim>\<open>re.findall(pat, s)\<close> for a pattern without metacharacters: the scan takes the
  leftmost match, continues behind it, and moves on by one character where the pattern
  does not match. The empty pattern matches once at every position.\<close>

function findall :: "'a list \<Rightarrow> 'a list \<Rightarrow> 'a list list" where
  "findall pat s =
     (if pat = [] then replicate (Suc (length s)) []
      else if s = [] then []
      else if take (length pat) s = pat then pat # findall pat (drop (length pat) s)
      else findall pat (tl s))"
  by pat_completeness auto
termination
  by (relation "measure (\<lambda>(pat, s). length s)") auto

declare findall.simps [simp del]

section \<open>The five checks\<close>

text \<open>Check 1: the text pattern \<^verbatim>\<open>operationID:\<close>. The result is what the check appends
  to \<^verbatim>\<open>errors\<close>.\<close>

definition check1 :: "string \<Rightarrow> string list" where
  "check1 content =
     (let incorrect_operation_id = findall ''operationID:'' content in
      if incorrect_operation_id \<noteq> [] then
        [''Found '' @ str_nat (length incorrect_operation_id)
           @ '' instances of incorrect 'operationID:' (should be 'operationId:')'']
      else [])"

text \<open>Check 2: a newline, two spaces and \<^verbatim>\<open>Parameters:\<close>.\<close>

definition parameters_pattern :: string where
  "parameters_pattern = CHR 0x0A # ''  Parameters:''"

definition check2 :: "string \<Rightarrow> string list" where
  "check2 content =
     (let incorrect_params = findall parameters_pattern content in
      if incorrect_params \<noteq> [] then
        [''Found '' @ str_nat (length incorrect_params)
           @ '' instances of incorrect 'Parameters:' (should be 'parameters:')'']
      else [])"

text \<open>Check 3: the two nested loops over \<^verbatim>\<open>spec['paths'].items()\<close> and
  \<^verbatim>\<open>methods.items()\<close>, with the pair \<^verbatim>\<open>(paths_without_op, total_endpoints)\<close> as the
  loop state.\<close>

fun check3_methods ::
  "scalar \<Rightarrow> (scalar \<times> yaml) list \<Rightarrow> string list \<times> nat \<Rightarrow> (string list \<times> nat) result" where
  "check3_methods path [] st = Inr st"
| "check3_methods path ((method, details) # rest) (paths_without_op, total_endpoints) =
     (if method \<noteq> SStr ''parameters'' \<and> is_dict details then
        (if \<not> (case details of YMap kvs \<Rightarrow> has_key ''operationId'' kvs | _ \<Rightarrow> False) then
           (case py_upper method of
              Inl e \<Rightarrow> Inl e
            | Inr m \<Rightarrow>
                check3_methods path rest
                  (paths_without_op @ [m @ '' '' @ py_str path], Suc total_endpoints))
         else check3_methods path rest (paths_without_op, Suc total_endpoints))
      else check3_methods path rest (paths_without_op, total_endpoints))"

fun check3_paths ::
  "(scalar \<times> yaml) list \<Rightarrow> string list \<times> nat \<Rightarrow> (string list \<times> nat) result" where
  "check3_paths [] st = Inr st"
| "check3_paths ((path, methods) # rest) st =
     (case py_items methods of
        Inl e \<Rightarrow> Inl e
      | Inr ms \<Rightarrow>
          (case check3_methods path ms st of
             Inl e \<Rightarrow> Inl e
           | Inr st' \<Rightarrow> check3_paths rest st'))"

text \<open>The result of check 3 is what it appends to \<^verbatim>\<open>errors\<close>, and
  \<^verbatim>\<open>total_endpoints\<close>.\<close>

definition check3 :: "yaml \<Rightarrow> (string list \<times> nat) result" where
  "check3 spec =
     (case py_subscript spec ''paths'' of
        Inl e \<Rightarrow> Inl e
      | Inr paths \<Rightarrow>
          (case py_items paths of
             Inl e \<Rightarrow> Inl e
           | Inr items \<Rightarrow>
               (case check3_paths items ([], 0) of
                  Inl e \<Rightarrow> Inl e
                | Inr (paths_without_op, total_endpoints) \<Rightarrow>
                    Inr (if paths_without_op \<noteq> [] then
                           [''Found '' @ str_nat (length paths_without_op)
                              @ '' endpoints without operationId: ''
                              @ join '', '' paths_without_op]
                         else [],
                         total_endpoints))))"

text \<open>Check 4: the fixed user endpoints and their \<^verbatim>\<open>userId\<close> parameter.\<close>

definition user_endpoints :: "(string \<times> string) list" where
  "user_endpoints =
     [(''get'', ''/user/{userId}''),
      (''delete'', ''/user/{userId}''),
      (''get'', ''/user/{userId}/points''),
      (''post'', ''/user/{userId}/points'')]"

text \<open>The test of the generator in \<^verbatim>\<open>any\<close>: \<^verbatim>\<open>isinstance(p, dict)\<close> and
  \<^verbatim>\<open>p.get('name') == 'userId'\<close>.\<close>

definition names_userId :: "yaml \<Rightarrow> bool" where
  "names_userId p =
     (case p of YMap kvs \<Rightarrow> dict_get kvs ''name'' = Some (YStr ''userId'') | _ \<Rightarrow> False)"

text \<open>One turn of the loop of check 4, up to \<^verbatim>\<open>has_userId\<close>.\<close>

definition has_userId :: "yaml \<Rightarrow> string \<Rightarrow> string \<Rightarrow> bool result" where
  "has_userId spec method path =
     (case py_subscript spec ''paths'' of
        Inl e \<Rightarrow> Inl e
      | Inr paths \<Rightarrow>
     (case py_get paths path (YMap []) of
        Inl e \<Rightarrow> Inl e
      | Inr path_item \<Rightarrow>
     (case py_get path_item method (YMap []) of
        Inl e \<Rightarrow> Inl e
      | Inr endpoint_details \<Rightarrow>
     (case py_get endpoint_details ''parameters'' (YSeq []) of
        Inl e \<Rightarrow> Inl e
      | Inr params \<Rightarrow>
     (case py_iter params of
        Inl e \<Rightarrow> Inl e
      | Inr ps \<Rightarrow>
          Inr (list_ex names_userId ps))))))"

fun missing_params_loop ::
  "yaml \<Rightarrow> (string \<times> string) list \<Rightarrow> string list \<Rightarrow> (string list) result" where
  "missing_params_loop spec [] missing_params = Inr missing_params"
| "missing_params_loop spec ((method, path) # rest) missing_params =
     (case has_userId spec method path of
        Inl e \<Rightarrow> Inl e
      | Inr h \<Rightarrow>
          missing_params_loop spec rest
            (if \<not> h then missing_params @ [str_upper method @ '' '' @ path]
             else missing_params))"

definition check4 :: "yaml \<Rightarrow> (string list) result" where
  "check4 spec =
     (case missing_params_loop spec user_endpoints [] of
        Inl e \<Rightarrow> Inl e
      | Inr missing_params \<Rightarrow>
          Inr (if missing_params \<noteq> [] then
                 [''Found '' @ str_nat (length missing_params)
                    @ '' user endpoints missing userId parameter: ''
                    @ join '', '' missing_params]
               else []))"

text \<open>Check 5: the fixed response schemas and the fields each must require.\<close>

definition responses_to_check :: "(string \<times> string \<times> string \<times> string list) list" where
  "responses_to_check =
     [(''GET'', ''/products'', ''200'', [''products'', ''total'', ''limit'']),
      (''GET'', ''/orders'', ''200'', [''orders'', ''total'']),
      (''GET'', ''/user/{userId}/points'', ''200'', [''loyaltyPoints'']),
      (''POST'', ''/user/{userId}/points'', ''200'', [''remainingPoints''])]"

text \<open>The navigation to \<^verbatim>\<open>required\<close>, every \<^verbatim>\<open>.get\<close> with its default.\<close>

definition required_of :: "yaml \<Rightarrow> string \<Rightarrow> string \<Rightarrow> string \<Rightarrow> yaml result" where
  "required_of spec method path status =
     (case py_subscript spec ''paths'' of
        Inl e \<Rightarrow> Inl e
      | Inr paths \<Rightarrow>
     (case py_get paths path (YMap []) of
        Inl e \<Rightarrow> Inl e
      | Inr path_item \<Rightarrow>
     (case py_get path_item (str_lower method) (YMap []) of
        Inl e \<Rightarrow> Inl e
      | Inr endpoint \<Rightarrow>
     (case py_get endpoint ''responses'' (YMap []) of
        Inl e \<Rightarrow> Inl e
      | Inr responses \<Rightarrow>
     (case py_get responses status (YMap []) of
        Inl e \<Rightarrow> Inl e
      | Inr response \<Rightarrow>
     (case py_get response ''content'' (YMap []) of
        Inl e \<Rightarrow> Inl e
      | Inr content \<Rightarrow>
     (case py_get content ''application/json'' (YMap []) of
        Inl e \<Rightarrow> Inl e
      | Inr media \<Rightarrow>
     (case py_get media ''schema'' (YMap []) of
        Inl e \<Rightarrow> Inl e
      | Inr schema \<Rightarrow> py_get schema ''required'' (YSeq [])))))))))"

text \<open>\<^verbatim>\<open>[field for field in expected_required if field not in required]\<close>\<close>

fun missing_fields :: "string list \<Rightarrow> yaml \<Rightarrow> (string list) result" where
  "missing_fields [] required = Inr []"
| "missing_fields (field # rest) required =
     (case py_contains field required of
        Inl e \<Rightarrow> Inl e
      | Inr present \<Rightarrow>
          (case missing_fields rest required of
             Inl e \<Rightarrow> Inl e
           | Inr ms \<Rightarrow> Inr (if \<not> present then field # ms else ms)))"

text \<open>\<^verbatim>\<open>repr\<close> of a list of field names (names without quotes or escapes).\<close>

definition repr_fields :: "string list \<Rightarrow> string" where
  "repr_fields fs = ''['' @ join '', '' (map (\<lambda>f. [CHR 0x27] @ f @ [CHR 0x27]) fs) @ '']''"

fun schemas_loop ::
  "yaml \<Rightarrow> (string \<times> string \<times> string \<times> string list) list \<Rightarrow> string list
     \<Rightarrow> (string list) result" where
  "schemas_loop spec [] schemas_missing_required = Inr schemas_missing_required"
| "schemas_loop spec ((method, path, status, expected_required) # rest)
       schemas_missing_required =
     (case required_of spec method path status of
        Inl e \<Rightarrow> Inl e
      | Inr required \<Rightarrow>
          (case missing_fields expected_required required of
             Inl e \<Rightarrow> Inl e
           | Inr missing \<Rightarrow>
               schemas_loop spec rest
                 (if missing \<noteq> [] then
                    schemas_missing_required
                      @ [method @ '' '' @ path @ '' '' @ status
                           @ '': missing required fields '' @ repr_fields missing]
                  else schemas_missing_required)))"

text \<open>The result of check 5 is what it appends to \<^verbatim>\<open>warnings\<close>; the entries of
  \<^verbatim>\<open>schemas_missing_required\<close> themselves are only printed.\<close>

definition check5 :: "yaml \<Rightarrow> (string list) result" where
  "check5 spec =
     (case schemas_loop spec responses_to_check [] of
        Inl e \<Rightarrow> Inl e
      | Inr schemas_missing_required \<Rightarrow>
          Inr (if schemas_missing_required \<noteq> [] then
                 [''Found '' @ str_nat (length schemas_missing_required)
                    @ '' response schemas with potentially missing required fields'']
               else []))"

section \<open>The run\<close>

record findings =
  errors :: "string list"
  warnings :: "string list"
  total_endpoints :: nat

text \<open>Checks 1 to 5 in the order of the source. An exception leaves the function, so
  the checks behind the raising one do not run.\<close>

definition run_checks :: "string \<Rightarrow> yaml \<Rightarrow> findings result" where
  "run_checks content spec =
     (let errors1 = [] @ check1 content;
          errors2 = errors1 @ check2 content
      in case check3 spec of
           Inl e \<Rightarrow> Inl e
         | Inr (errors3, endpoints) \<Rightarrow>
             (case check4 spec of
                Inl e \<Rightarrow> Inl e
              | Inr errors4 \<Rightarrow>
                  (case check5 spec of
                     Inl e \<Rightarrow> Inl e
                   | Inr warnings5 \<Rightarrow>
                       Inr \<lparr>errors = errors2 @ errors3 @ errors4,
                            warnings = [] @ warnings5,
                            total_endpoints = endpoints\<rparr>)))"

text \<open>The summary: the branch without errors and without warnings prints
  \<^verbatim>\<open>spec['openapi']\<close> and \<^verbatim>\<open>spec['info']['version']\<close> before it returns.\<close>

definition summary :: "yaml \<Rightarrow> findings \<Rightarrow> bool result" where
  "summary spec f =
     (if errors f = [] \<and> warnings f = [] then
        (case py_subscript spec ''openapi'' of
           Inl e \<Rightarrow> Inl e
         | Inr openapi_version \<Rightarrow>
             (case py_subscript spec ''info'' of
                Inl e \<Rightarrow> Inl e
              | Inr info \<Rightarrow>
                  (case py_subscript info ''version'' of
                     Inl e \<Rightarrow> Inl e
                   | Inr api_version \<Rightarrow> Inr True)))
      else if errors f = [] then Inr True
      else Inr False)"

text \<open>\<^verbatim>\<open>validate_openapi_spec\<close>. The file is \<open>None\<close> when \<^verbatim>\<open>open\<close> raises
  FileNotFoundError, and its text otherwise. The parser is a parameter: \<open>safe_load\<close>
  gives \<open>None\<close> where \<^verbatim>\<open>yaml.safe_load\<close> raises YAMLError. The result is the returned
  boolean with the two collections as they are at the return; \<open>Inl\<close> is an exception
  that leaves the function. Other failures of \<^verbatim>\<open>open\<close> and \<^verbatim>\<open>read\<close> (permissions, a
  directory, bytes that do not decode) and the printed transcript are outside the model.\<close>

definition validate_openapi_spec ::
  "(string \<Rightarrow> yaml option) \<Rightarrow> string option \<Rightarrow> (bool \<times> string list \<times> string list) result" where
  "validate_openapi_spec safe_load contents =
     (case contents of
        None \<Rightarrow> Inr (False, [], [])
      | Some content \<Rightarrow>
          (case safe_load content of
             None \<Rightarrow> Inr (False, [], [])
           | Some spec \<Rightarrow>
               (case run_checks content spec of
                  Inl e \<Rightarrow> Inl e
                | Inr f \<Rightarrow>
                    (case summary spec f of
                       Inl e \<Rightarrow> Inl e
                     | Inr success \<Rightarrow> Inr (success, errors f, warnings f)))))"

text \<open>The script's entry point: \<^verbatim>\<open>sys.exit(0 if success else 1)\<close>; an exception that
  nothing catches ends the interpreter with status 1.\<close>

definition exit_code :: "(string \<Rightarrow> yaml option) \<Rightarrow> string option \<Rightarrow> nat" where
  "exit_code safe_load contents =
     (case validate_openapi_spec safe_load contents of
        Inl e \<Rightarrow> 1
      | Inr (success, es, ws) \<Rightarrow> (if success then 0 else 1))"

section \<open>The document shape of the interface description\<close>

text \<open>The shape the specification gives for the input file: the document is a mapping
  with a mapping under \<^verbatim>\<open>paths\<close>; every path value is a mapping with string keys;
  every value under a key other than \<^verbatim>\<open>parameters\<close> is an operation, a mapping whose
  \<^verbatim>\<open>parameters\<close> (if any) is a sequence and whose \<^verbatim>\<open>responses\<close> (if any) is a
  mapping of responses; a response is a mapping whose \<^verbatim>\<open>content\<close> (if any) is a mapping
  of media types; a media type is a mapping whose \<^verbatim>\<open>schema\<close> (if any) is a mapping whose
  \<^verbatim>\<open>required\<close> (if any) is a sequence.\<close>

definition is_seq :: "yaml \<Rightarrow> bool" where
  "is_seq v = (case v of YSeq xs \<Rightarrow> True | _ \<Rightarrow> False)"

definition absent_or :: "(yaml \<Rightarrow> bool) \<Rightarrow> (scalar \<times> yaml) list \<Rightarrow> string \<Rightarrow> bool" where
  "absent_or P kvs k = (case dict_get kvs k of None \<Rightarrow> True | Some v \<Rightarrow> P v)"

definition wf_schema :: "yaml \<Rightarrow> bool" where
  "wf_schema v = (case v of YMap kvs \<Rightarrow> absent_or is_seq kvs ''required'' | _ \<Rightarrow> False)"

definition wf_media :: "yaml \<Rightarrow> bool" where
  "wf_media v = (case v of YMap kvs \<Rightarrow> absent_or wf_schema kvs ''schema'' | _ \<Rightarrow> False)"

definition wf_content :: "yaml \<Rightarrow> bool" where
  "wf_content v = (case v of YMap kvs \<Rightarrow> list_all (\<lambda>kv. wf_media (snd kv)) kvs | _ \<Rightarrow> False)"

definition wf_response :: "yaml \<Rightarrow> bool" where
  "wf_response v = (case v of YMap kvs \<Rightarrow> absent_or wf_content kvs ''content'' | _ \<Rightarrow> False)"

definition wf_responses :: "yaml \<Rightarrow> bool" where
  "wf_responses v = (case v of YMap kvs \<Rightarrow> list_all (\<lambda>kv. wf_response (snd kv)) kvs | _ \<Rightarrow> False)"

definition wf_operation :: "yaml \<Rightarrow> bool" where
  "wf_operation v =
     (case v of
        YMap kvs \<Rightarrow> absent_or is_seq kvs ''parameters'' \<and> absent_or wf_responses kvs ''responses''
      | _ \<Rightarrow> False)"

definition wf_method_entry :: "scalar \<times> yaml \<Rightarrow> bool" where
  "wf_method_entry kv =
     (case fst kv of
        SStr m \<Rightarrow> (if m = ''parameters'' then True else wf_operation (snd kv))
      | _ \<Rightarrow> False)"

definition wf_path_item :: "yaml \<Rightarrow> bool" where
  "wf_path_item v = (case v of YMap ms \<Rightarrow> list_all wf_method_entry ms | _ \<Rightarrow> False)"

definition wf_document :: "yaml \<Rightarrow> bool" where
  "wf_document spec =
     (case spec of
        YMap root \<Rightarrow>
          (case dict_get root ''paths'' of
             Some (YMap paths) \<Rightarrow> list_all (\<lambda>kv. wf_path_item (snd kv)) paths
           | _ \<Rightarrow> False)
      | _ \<Rightarrow> False)"


section \<open>Notions of the specification\<close>

text \<open>A fixed response tuple lacks required fields when the navigation and the comparison
  run through and the difference of expected and declared names is not empty.\<close>

definition lacks_required :: "yaml \<Rightarrow> string \<times> string \<times> string \<times> string list \<Rightarrow> bool" where
  "lacks_required spec t =
     (case t of (method, path, status, expected) \<Rightarrow>
        (case required_of spec method path status of
           Inl e \<Rightarrow> False
         | Inr required \<Rightarrow>
             (case missing_fields expected required of
                Inl e \<Rightarrow> False
              | Inr missing \<Rightarrow> missing \<noteq> [])))"

text \<open>The expected names of a fixed response tuple are all in the declared \<^verbatim>\<open>required\<close>
  list that the navigation reaches.\<close>

definition baseline_declared :: "yaml \<Rightarrow> string \<times> string \<times> string \<times> string list \<Rightarrow> bool" where
  "baseline_declared spec t =
     (case t of (method, path, status, expected) \<Rightarrow>
        (case required_of spec method path status of
           Inr (YSeq declared) \<Rightarrow> list_all (\<lambda>f. YStr f \<in> set declared) expected
         | _ \<Rightarrow> False))"

text \<open>The operation under \<^verbatim>\<open>paths[path][method]\<close>, when every step is a mapping that has
  the key.\<close>

definition operation_at :: "yaml \<Rightarrow> string \<Rightarrow> string \<Rightarrow> yaml option" where
  "operation_at spec method path =
     (case spec of
        YMap root \<Rightarrow>
          (case dict_get root ''paths'' of
             Some (YMap paths) \<Rightarrow>
               (case dict_get paths path of
                  Some (YMap item) \<Rightarrow> dict_get item method
                | _ \<Rightarrow> None)
           | _ \<Rightarrow> None)
      | _ \<Rightarrow> None)"


text \<open>The text \<^verbatim>\<open>METHOD /path\<close> that names an endpoint in a message.\<close>

definition endpoint_label :: "string \<times> string \<Rightarrow> string" where
  "endpoint_label ep = str_upper (fst ep) @ '' '' @ snd ep"

text \<open>The fixed user endpoints for which check 4 finds no \<^verbatim>\<open>userId\<close> parameter.\<close>

definition missing_endpoints :: "yaml \<Rightarrow> string list" where
  "missing_endpoints spec =
     map endpoint_label
       (filter (\<lambda>ep. has_userId spec (fst ep) (snd ep) = Inr False) user_endpoints)"

text \<open>An entry under a path counts as an endpoint when its key is not \<^verbatim>\<open>parameters\<close>
  and its value is a mapping.\<close>

definition is_endpoint :: "scalar \<times> yaml \<Rightarrow> bool" where
  "is_endpoint kv = (fst kv \<noteq> SStr ''parameters'' \<and> is_dict (snd kv))"

text \<open>The number of endpoints of all paths.\<close>

definition endpoint_count :: "(scalar \<times> yaml) list \<Rightarrow> nat" where
  "endpoint_count paths =
     sum_list (map (\<lambda>kv. case snd kv of YMap ms \<Rightarrow> length (filter is_endpoint ms) | _ \<Rightarrow> 0) paths)"

text \<open>An entry under a path is the \<^verbatim>\<open>parameters\<close> entry, or a mapping with an
  \<^verbatim>\<open>operationId\<close>.\<close>

definition identified :: "scalar \<times> yaml \<Rightarrow> bool" where
  "identified kv =
     (fst kv = SStr ''parameters''
      \<or> (case snd kv of YMap kvs \<Rightarrow> has_key ''operationId'' kvs | _ \<Rightarrow> False))"

text \<open>Every path value is a mapping all of whose entries are identified.\<close>

definition all_identified :: "(scalar \<times> yaml) list \<Rightarrow> bool" where
  "all_identified paths =
     list_all (\<lambda>kv. case snd kv of YMap ms \<Rightarrow> list_all identified ms | _ \<Rightarrow> False) paths"

text \<open>The document has the top-level \<^verbatim>\<open>openapi\<close> field and an \<^verbatim>\<open>info\<close> mapping with a
  \<^verbatim>\<open>version\<close> field, as the data model requires.\<close>

definition has_versions :: "yaml \<Rightarrow> bool" where
  "has_versions spec =
     (case spec of
        YMap root \<Rightarrow>
          has_key ''openapi'' root
          \<and> (case dict_get root ''info'' of
                Some (YMap info) \<Rightarrow> has_key ''version'' info
              | _ \<Rightarrow> False)
      | _ \<Rightarrow> False)"


section \<open>Example documents\<close>

text \<open>A parameter entry named \<^verbatim>\<open>userId\<close>, a responses mapping whose status 200 declares
  the given required fields, and an operation built from both.\<close>

definition userId_param :: yaml where
  "userId_param = YMap [(SStr ''name'', YStr ''userId''), (SStr ''in'', YStr ''path'')]"

definition json_response :: "string list \<Rightarrow> yaml" where
  "json_response names =
     YMap [(SStr ''200'',
       YMap [(SStr ''content'',
         YMap [(SStr ''application/json'',
           YMap [(SStr ''schema'',
             YMap [(SStr ''required'', YSeq (map YStr names))])])])])]"

definition operation :: "string \<Rightarrow> yaml list \<Rightarrow> string list \<Rightarrow> yaml" where
  "operation opid params names =
     YMap [(SStr ''operationId'', YStr opid),
           (SStr ''parameters'', YSeq params),
           (SStr ''responses'', json_response names)]"

text \<open>The paths of a document that passes every check when \<open>product_names\<close> covers
  \<^verbatim>\<open>products\<close>, \<^verbatim>\<open>total\<close> and \<^verbatim>\<open>limit\<close>.\<close>

definition scenario_paths :: "string list \<Rightarrow> yaml" where
  "scenario_paths product_names =
     YMap [(SStr ''/products'',
              YMap [(SStr ''get'', operation ''listProducts'' [] product_names)]),
           (SStr ''/orders'',
              YMap [(SStr ''get'', operation ''listOrders'' [] [''orders'', ''total''])]),
           (SStr ''/user/{userId}'',
              YMap [(SStr ''get'', operation ''getUser'' [userId_param] []),
                    (SStr ''delete'', operation ''deleteUser'' [userId_param] [])]),
           (SStr ''/user/{userId}/points'',
              YMap [(SStr ''get'', operation ''getPoints'' [userId_param] [''loyaltyPoints'']),
                    (SStr ''post'', operation ''usePoints'' [userId_param]
                       [''remainingPoints''])])]"

definition compliant_doc :: yaml where
  "compliant_doc =
     YMap [(SStr ''openapi'', YStr ''3.0.3''),
           (SStr ''info'', YMap [(SStr ''version'', YStr ''1.0.0'')]),
           (SStr ''paths'', scenario_paths [''products'', ''total'', ''limit''])]"

text \<open>The compliant document, except that the required list of the products response
  leaves out \<^verbatim>\<open>total\<close>.\<close>

definition advisory_doc :: yaml where
  "advisory_doc =
     YMap [(SStr ''openapi'', YStr ''3.0.3''),
           (SStr ''info'', YMap [(SStr ''version'', YStr ''1.0.0'')]),
           (SStr ''paths'', scenario_paths [''products'', ''limit''])]"

text \<open>The same paths in a document without \<^verbatim>\<open>openapi\<close> and \<^verbatim>\<open>info\<close>.\<close>

definition paths_only_doc :: yaml where
  "paths_only_doc = YMap [(SStr ''paths'', scenario_paths [''products'', ''total'', ''limit''])]"

text \<open>The paths of \<open>advisory_doc\<close> in a document without \<^verbatim>\<open>openapi\<close> and \<^verbatim>\<open>info\<close>.\<close>

definition paths_only_advisory_doc :: yaml where
  "paths_only_advisory_doc = YMap [(SStr ''paths'', scenario_paths [''products'', ''limit''])]"

text \<open>A document with no path at all, one whose only path has a string as its value, and
  one with a single operation that has no \<^verbatim>\<open>operationId\<close>.\<close>

definition empty_paths_doc :: yaml where
  "empty_paths_doc = YMap [(SStr ''paths'', YMap [])]"

definition string_path_doc :: yaml where
  "string_path_doc = YMap [(SStr ''paths'', YMap [(SStr ''/a'', YStr ''x'')])]"

definition bare_operation_doc :: yaml where
  "bare_operation_doc =
     YMap [(SStr ''paths'', YMap [(SStr ''/a'', YMap [(SStr ''get'', YMap [])])])]"

text \<open>A text with one match of each of the two text patterns.\<close>

definition two_typos_text :: string where
  "two_typos_text = ''operationID: a'' @ parameters_pattern"

section \<open>Well-shaped documents never make a check raise\<close>

lemma dict_get_in_set: "dict_get kvs k = Some v \<Longrightarrow> (SStr k, v) \<in> set kvs"
  by (simp add: dict_get_def map_of_SomeD)

lemma absent_or_get:
  assumes "absent_or P kvs k" and "P dflt"
  shows "\<exists>v. py_get (YMap kvs) k dflt = Inr v \<and> P v"
  using assms by (auto simp: absent_or_def split: option.splits)

lemma list_all_get:
  assumes "list_all (\<lambda>kv. P (snd kv)) kvs" and "P dflt"
  shows "\<exists>v. py_get (YMap kvs) k dflt = Inr v \<and> P v"
proof (cases "dict_get kvs k")
  case None
  with assms(2) show ?thesis by simp
next
  case (Some v)
  from dict_get_in_set[OF Some] assms(1) have "P v"
    by (auto simp: list_all_iff)
  with Some show ?thesis by simp
qed

lemma wf_schema_empty: "wf_schema (YMap [])"
  by (simp add: wf_schema_def absent_or_def dict_get_def)
lemma wf_media_empty: "wf_media (YMap [])"
  by (simp add: wf_media_def absent_or_def dict_get_def)
lemma wf_content_empty: "wf_content (YMap [])"
  by (simp add: wf_content_def)
lemma wf_response_empty: "wf_response (YMap [])"
  by (simp add: wf_response_def absent_or_def dict_get_def)
lemma wf_responses_empty: "wf_responses (YMap [])"
  by (simp add: wf_responses_def)
lemma wf_operation_empty: "wf_operation (YMap [])"
  by (simp add: wf_operation_def absent_or_def dict_get_def)
lemma wf_path_item_empty: "wf_path_item (YMap [])"
  by (simp add: wf_path_item_def)

lemma wf_path_item_get:
  assumes "wf_path_item item" and "m \<noteq> ''parameters''"
  shows "\<exists>v. py_get item m (YMap []) = Inr v \<and> wf_operation v"
proof -
  from assms(1) obtain ms where item: "item = YMap ms" and all: "list_all wf_method_entry ms"
    by (auto simp: wf_path_item_def split: yaml.splits)
  show ?thesis
  proof (cases "dict_get ms m")
    case None
    with item show ?thesis by (simp add: wf_operation_empty)
  next
    case (Some v)
    from dict_get_in_set[OF Some] all have "wf_method_entry (SStr m, v)"
      by (auto simp: list_all_iff)
    with assms(2) have "wf_operation v" by (simp add: wf_method_entry_def)
    with Some item show ?thesis by simp
  qed
qed

lemma wf_document_paths:
  assumes "wf_document spec"
  shows "\<exists>paths. py_subscript spec ''paths'' = Inr (YMap paths)
           \<and> list_all (\<lambda>kv. wf_path_item (snd kv)) paths"
proof -
  from assms obtain root where s: "spec = YMap root"
    by (cases spec) (auto simp: wf_document_def)
  with assms obtain v where g: "dict_get root ''paths'' = Some v"
    by (cases "dict_get root ''paths''") (auto simp: wf_document_def)
  with assms s obtain paths where "v = YMap paths"
    by (cases v) (auto simp: wf_document_def)
  with assms s g show ?thesis by (simp add: wf_document_def)
qed

lemma wf_document_operation:
  assumes "wf_document spec" and "m \<noteq> ''parameters''"
  shows "\<exists>paths item ep. py_subscript spec ''paths'' = Inr paths
           \<and> py_get paths path (YMap []) = Inr item
           \<and> py_get item m (YMap []) = Inr ep \<and> wf_operation ep"
proof -
  from wf_document_paths[OF assms(1)] obtain paths where
    p: "py_subscript spec ''paths'' = Inr (YMap paths)"
    and all: "list_all (\<lambda>kv. wf_path_item (snd kv)) paths" by blast
  from list_all_get[OF all wf_path_item_empty, of path] obtain item where
    i: "py_get (YMap paths) path (YMap []) = Inr item" and wi: "wf_path_item item" by blast
  from wf_path_item_get[OF wi assms(2)] obtain ep where
    "py_get item m (YMap []) = Inr ep" "wf_operation ep" by blast
  with p i show ?thesis by blast
qed

lemma py_iter_seq: "is_seq v \<Longrightarrow> \<exists>xs. py_iter v = Inr xs"
  by (cases v) (auto simp: is_seq_def)

lemma has_userId_wf:
  assumes "wf_document spec" and "m \<noteq> ''parameters''"
  shows "\<exists>b. has_userId spec m path = Inr b"
proof -
  from wf_document_operation[OF assms, of path] obtain paths item ep where
    a: "py_subscript spec ''paths'' = Inr paths" "py_get paths path (YMap []) = Inr item"
       "py_get item m (YMap []) = Inr ep" and w: "wf_operation ep" by blast
  from w obtain kvs where ep: "ep = YMap kvs" and ps: "absent_or is_seq kvs ''parameters''"
    by (auto simp: wf_operation_def split: yaml.splits)
  have "is_seq (YSeq [])" by (simp add: is_seq_def)
  from absent_or_get[OF ps this] obtain params where
    g: "py_get ep ''parameters'' (YSeq []) = Inr params" and "is_seq params"
    using ep by blast
  from py_iter_seq[OF this(2)] obtain xs where "py_iter params = Inr xs" by blast
  with a g show ?thesis by (simp add: has_userId_def)
qed

lemma missing_params_loop_ok:
  assumes "\<forall>(m, p) \<in> set eps. \<exists>b. has_userId spec m p = Inr b"
  shows "\<exists>ms. missing_params_loop spec eps acc = Inr ms"
  using assms
proof (induction eps arbitrary: acc)
  case Nil
  show ?case by simp
next
  case (Cons ep eps)
  obtain m p where ep: "ep = (m, p)" by (cases ep)
  with Cons.prems obtain b where "has_userId spec m p = Inr b" by auto
  moreover from Cons.prems have "\<forall>(m, p) \<in> set eps. \<exists>b. has_userId spec m p = Inr b" by simp
  ultimately show ?case using Cons.IH ep by simp
qed

lemma check4_wf:
  assumes "wf_document spec"
  shows "\<exists>es. check4 spec = Inr es"
proof -
  have "\<forall>(m, p) \<in> set user_endpoints. \<exists>b. has_userId spec m p = Inr b"
    using has_userId_wf[OF assms] by (auto simp: user_endpoints_def)
  from missing_params_loop_ok[OF this, of "[]"] show ?thesis
    by (auto simp: check4_def)
qed

lemma str_lower_GET: "str_lower ''GET'' = ''get''"
  by code_simp

lemma str_lower_POST: "str_lower ''POST'' = ''post''"
  by code_simp

lemma str_upper_get: "str_upper ''get'' = ''GET''"
  by code_simp

lemma str_upper_post: "str_upper ''post'' = ''POST''"
  by code_simp

lemma str_upper_delete: "str_upper ''delete'' = ''DELETE''"
  by code_simp


lemma required_of_wf:
  assumes "wf_document spec" and "str_lower method \<noteq> ''parameters''"
  shows "\<exists>req. required_of spec method path status = Inr req \<and> is_seq req"
proof -
  from wf_document_operation[OF assms, of path] obtain paths item ep where
    a: "py_subscript spec ''paths'' = Inr paths" "py_get paths path (YMap []) = Inr item"
       "py_get item (str_lower method) (YMap []) = Inr ep" and w: "wf_operation ep" by blast
  from w obtain kvs where ep: "ep = YMap kvs" and rs: "absent_or wf_responses kvs ''responses''"
    by (auto simp: wf_operation_def split: yaml.splits)
  from absent_or_get[OF rs wf_responses_empty] ep obtain responses where
    b: "py_get ep ''responses'' (YMap []) = Inr responses" and wr: "wf_responses responses" by blast
  from wr obtain rkvs where r: "responses = YMap rkvs"
    and rall: "list_all (\<lambda>kv. wf_response (snd kv)) rkvs"
    by (auto simp: wf_responses_def split: yaml.splits)
  from list_all_get[OF rall wf_response_empty, of status] r obtain response where
    c: "py_get responses status (YMap []) = Inr response" and wre: "wf_response response" by blast
  from wre obtain ckvs where re: "response = YMap ckvs" and cc: "absent_or wf_content ckvs ''content''"
    by (auto simp: wf_response_def split: yaml.splits)
  from absent_or_get[OF cc wf_content_empty] re obtain content where
    d: "py_get response ''content'' (YMap []) = Inr content" and wc: "wf_content content" by blast
  from wc obtain mkvs where co: "content = YMap mkvs"
    and mall: "list_all (\<lambda>kv. wf_media (snd kv)) mkvs"
    by (auto simp: wf_content_def split: yaml.splits)
  from list_all_get[OF mall wf_media_empty, of "''application/json''"] co obtain media where
    e: "py_get content ''application/json'' (YMap []) = Inr media" and wm: "wf_media media" by blast
  from wm obtain skvs where me: "media = YMap skvs" and ss: "absent_or wf_schema skvs ''schema''"
    by (auto simp: wf_media_def split: yaml.splits)
  from absent_or_get[OF ss wf_schema_empty] me obtain schema where
    f: "py_get media ''schema'' (YMap []) = Inr schema" and ws: "wf_schema schema" by blast
  from ws obtain qkvs where sc: "schema = YMap qkvs" and qq: "absent_or is_seq qkvs ''required''"
    by (auto simp: wf_schema_def split: yaml.splits)
  have "is_seq (YSeq [])" by (simp add: is_seq_def)
  from absent_or_get[OF qq this] sc obtain req where
    g: "py_get schema ''required'' (YSeq []) = Inr req" and "is_seq req" by blast
  with a b c d e f show ?thesis by (simp add: required_of_def)
qed

lemma missing_fields_seq:
  "missing_fields fs (YSeq req) = Inr (filter (\<lambda>f. YStr f \<notin> set req) fs)"
  by (induction fs) auto

lemma schemas_loop_ok:
  assumes "\<forall>(m, p, s, ex) \<in> set ts. \<exists>req. required_of spec m p s = Inr req \<and> is_seq req"
  shows "\<exists>xs. schemas_loop spec ts acc = Inr xs"
  using assms
proof (induction ts arbitrary: acc)
  case Nil
  show ?case by simp
next
  case (Cons t ts)
  obtain m p s ex where t: "t = (m, p, s, ex)" by (cases t)
  with Cons.prems obtain req where "required_of spec m p s = Inr req" "is_seq req" by auto
  then obtain ys where r: "required_of spec m p s = Inr (YSeq ys)"
    by (cases req) (auto simp: is_seq_def)
  from Cons.prems have "\<forall>(m, p, s, ex) \<in> set ts. \<exists>req. required_of spec m p s = Inr req \<and> is_seq req"
    by simp
  from Cons.IH[OF this] r t show ?case by (simp add: missing_fields_seq)
qed

lemma check5_wf:
  assumes "wf_document spec"
  shows "\<exists>ws. check5 spec = Inr ws"
proof -
  have "\<forall>(m, p, s, ex) \<in> set responses_to_check. \<exists>req. required_of spec m p s = Inr req \<and> is_seq req"
    using required_of_wf[OF assms] by (auto simp: responses_to_check_def str_lower_GET str_lower_POST)
  from schemas_loop_ok[OF this, of "[]"] show ?thesis
    by (auto simp: check5_def)
qed

lemma check3_methods_wf:
  assumes "list_all wf_method_entry ms"
  shows "\<exists>st'. check3_methods path ms st = Inr st'"
  using assms
proof (induction ms arbitrary: st)
  case Nil
  show ?case by simp
next
  case (Cons kv ms)
  obtain k d where kv: "kv = (k, d)" by (cases kv)
  obtain pwo n where st: "st = (pwo, n)" by (cases st)
  from Cons.prems kv obtain m where m: "k = SStr m"
    by (auto simp: wf_method_entry_def split: scalar.splits)
  from Cons.prems have "list_all wf_method_entry ms" by simp
  from Cons.IH[OF this] kv st m show ?case by simp
qed

lemma check3_paths_wf:
  assumes "list_all (\<lambda>kv. wf_path_item (snd kv)) paths"
  shows "\<exists>st'. check3_paths paths st = Inr st'"
  using assms
proof (induction paths arbitrary: st)
  case Nil
  show ?case by simp
next
  case (Cons kv paths)
  obtain path item where kv: "kv = (path, item)" by (cases kv)
  with Cons.prems obtain ms where item: "item = YMap ms" and all: "list_all wf_method_entry ms"
    by (auto simp: wf_path_item_def split: yaml.splits)
  from check3_methods_wf[OF all] obtain st1 where "check3_methods path ms st = Inr st1" by blast
  moreover from Cons.prems have "list_all (\<lambda>kv. wf_path_item (snd kv)) paths" by simp
  ultimately show ?case using Cons.IH kv item by simp
qed

lemma check3_wf:
  assumes "wf_document spec"
  shows "\<exists>es n. check3 spec = Inr (es, n)"
proof -
  from wf_document_paths[OF assms] obtain paths where
    p: "py_subscript spec ''paths'' = Inr (YMap paths)"
    and all: "list_all (\<lambda>kv. wf_path_item (snd kv)) paths" by blast
  from check3_paths_wf[OF all, of "([], 0)"] obtain pwo n where
    "check3_paths paths ([], 0) = Inr (pwo, n)" by force
  with p show ?thesis by (simp add: check3_def)
qed

lemma run_checks_wf:
  assumes "wf_document spec"
  shows "\<exists>f. run_checks content spec = Inr f"
proof -
  from check3_wf[OF assms] obtain e3 n where "check3 spec = Inr (e3, n)" by blast
  moreover from check4_wf[OF assms] obtain e4 where "check4 spec = Inr e4" by blast
  moreover from check5_wf[OF assms] obtain w5 where "check5 spec = Inr w5" by blast
  ultimately show ?thesis by (simp add: run_checks_def Let_def)
qed

lemma check3_methods_error:
  "check3_methods path ms st = Inl e \<Longrightarrow> e = AttributeError"
proof (induction path ms st rule: check3_methods.induct)
  case (1 path st)
  then show ?case by simp
next
  case (2 path k d rest paths_without_op total_endpoints)
  then show ?case
    by (cases k) (auto split: if_splits sum.splits)
qed

lemma check3_paths_not_dict:
  assumes "(path, v) \<in> set paths" and "\<not> is_dict v"
  shows "check3_paths paths st = Inl AttributeError"
  using assms(1)
proof (induction paths arbitrary: st)
  case Nil
  then show ?case by simp
next
  case (Cons kv paths)
  obtain p item where kv: "kv = (p, item)" by (cases kv)
  show ?case
  proof (cases "is_dict item")
    case False
    then have "py_items item = Inl AttributeError" by (cases item) auto
    with kv show ?thesis by simp
  next
    case True
    then obtain ms where item: "item = YMap ms" by (cases item) auto
    with kv Cons.prems assms(2) have mem: "(path, v) \<in> set paths" by auto
    show ?thesis
    proof (cases "check3_methods p ms st")
      case (Inl e)
      with check3_methods_error[OF Inl] kv item show ?thesis by simp
    next
      case (Inr st1)
      with Cons.IH[OF mem, of st1] kv item show ?thesis by simp
    qed
  qed
qed

lemma check3_no_paths:
  assumes "dict_get root ''paths'' = None"
  shows "check3 (YMap root) = Inl KeyError"
  using assms by (simp add: check3_def)

lemma check3_path_not_dict:
  assumes "dict_get root ''paths'' = Some (YMap paths)"
    and "(path, v) \<in> set paths" and "\<not> is_dict v"
  shows "check3 (YMap root) = Inl AttributeError"
  using assms(1) check3_paths_not_dict[OF assms(2,3), of "([], 0)"]
  by (simp add: check3_def)

lemma run_checks_check3_error:
  "check3 spec = Inl e \<Longrightarrow> run_checks content spec = Inl e"
  by (simp add: run_checks_def Let_def)

section \<open>How many findings a check appends\<close>

lemma check1_length: "length (check1 content) \<le> 1"
  by (simp add: check1_def Let_def)

lemma check2_length: "length (check2 content) \<le> 1"
  by (simp add: check2_def Let_def)

lemma check3_length: "check3 spec = Inr (es, n) \<Longrightarrow> length es \<le> 1"
  by (auto simp: check3_def split: sum.splits prod.splits if_splits)

lemma check4_length: "check4 spec = Inr es \<Longrightarrow> length es \<le> 1"
  by (auto simp: check4_def split: sum.splits if_splits)

lemma check5_length: "check5 spec = Inr ws \<Longrightarrow> length ws \<le> 1"
  by (auto simp: check5_def split: sum.splits if_splits)

lemma run_checks_parts:
  assumes "run_checks content spec = Inr f"
  shows "\<exists>e3 n e4 w5. check3 spec = Inr (e3, n) \<and> check4 spec = Inr e4
           \<and> check5 spec = Inr w5
           \<and> f = \<lparr>errors = check1 content @ check2 content @ e3 @ e4,
                   warnings = w5, total_endpoints = n\<rparr>"
  using assms
  by (auto simp: run_checks_def Let_def split: sum.splits prod.splits)

lemma run_checks_bounds:
  assumes "run_checks content spec = Inr f"
  shows "length (errors f) \<le> 4 \<and> length (warnings f) \<le> 1"
proof -
  from run_checks_parts[OF assms] obtain e3 n e4 w5 where
    c3: "check3 spec = Inr (e3, n)" and c4: "check4 spec = Inr e4"
    and c5: "check5 spec = Inr w5"
    and f: "f = \<lparr>errors = check1 content @ check2 content @ e3 @ e4,
                  warnings = w5, total_endpoints = n\<rparr>"
    by blast
  from check3_length[OF c3] check4_length[OF c4] check5_length[OF c5]
    check1_length[of content] check2_length[of content] f
  show ?thesis
    by simp
qed

section \<open>The two text scans\<close>

lemma occurrences_drop: "occurrences pat (drop k s) \<le> occurrences pat s"
proof (induction s arbitrary: k)
  case Nil
  show ?case by simp
next
  case (Cons c cs)
  show ?case
  proof (cases k)
    case 0
    then show ?thesis by simp
  next
    case (Suc j)
    have "occurrences pat (drop j cs) \<le> occurrences pat cs" by (rule Cons.IH)
    with Suc show ?thesis by simp
  qed
qed

lemma findall_Nil: "pat \<noteq> [] \<Longrightarrow> findall pat [] = []"
  by (subst findall.simps) simp

lemma findall_match:
  "pat \<noteq> [] \<Longrightarrow> take (length pat) (c # cs) = pat \<Longrightarrow>
   findall pat (c # cs) = pat # findall pat (drop (length pat - 1) cs)"
  by (subst findall.simps) (cases pat, auto)

lemma findall_skip:
  "pat \<noteq> [] \<Longrightarrow> take (length pat) (c # cs) \<noteq> pat \<Longrightarrow>
   findall pat (c # cs) = findall pat cs"
  by (subst findall.simps) simp

lemma findall_length_le:
  "pat \<noteq> [] \<Longrightarrow> length (findall pat s) \<le> occurrences pat s"
proof (induction s rule: length_induct)
  case (1 s)
  show ?case
  proof (cases s)
    case Nil
    with 1 show ?thesis by (simp add: findall_Nil)
  next
    case (Cons c cs)
    show ?thesis
    proof (cases "take (length pat) (c # cs) = pat")
      case True
      have "length (drop (length pat - 1) cs) < length s" using Cons by simp
      with 1 have "length (findall pat (drop (length pat - 1) cs))
                     \<le> occurrences pat (drop (length pat - 1) cs)" by blast
      also have "\<dots> \<le> occurrences pat cs" by (rule occurrences_drop)
      finally show ?thesis using True Cons 1(2) by (simp add: findall_match)
    next
      case False
      have "length cs < length s" using Cons by simp
      with 1 have "length (findall pat cs) \<le> occurrences pat cs" by blast
      with False Cons 1(2) show ?thesis by (simp add: findall_skip)
    qed
  qed
qed

lemma findall_nonempty:
  "pat \<noteq> [] \<Longrightarrow> 0 < occurrences pat s \<Longrightarrow> findall pat s \<noteq> []"
proof (induction s)
  case Nil
  then show ?case by simp
next
  case (Cons c cs)
  show ?case
  proof (cases "take (length pat) (c # cs) = pat")
    case True
    with Cons.prems show ?thesis by (simp add: findall_match)
  next
    case False
    with Cons show ?thesis by (simp add: findall_skip)
  qed
qed

lemma findall_none: "pat \<noteq> [] \<Longrightarrow> occurrences pat s = 0 \<Longrightarrow> findall pat s = []"
  using findall_length_le[of pat s] by simp

lemma findall_one: "pat \<noteq> [] \<Longrightarrow> occurrences pat s = 1 \<Longrightarrow> length (findall pat s) = 1"
  using findall_length_le[of pat s] findall_nonempty[of pat s]
  by (cases "findall pat s") auto

lemma str_nat_1: "str_nat 1 = ''1''"
  by code_simp

lemma check1_none: "occurrences ''operationID:'' content = 0 \<Longrightarrow> check1 content = []"
  by (simp add: check1_def findall_none)

lemma check2_none: "occurrences parameters_pattern content = 0 \<Longrightarrow> check2 content = []"
  by (simp add: check2_def findall_none parameters_pattern_def)

lemma check1_one:
  "occurrences ''operationID:'' content = 1 \<Longrightarrow>
   check1 content = [''Found 1 instances of incorrect 'operationID:' (should be 'operationId:')'']"
  using findall_one[of "''operationID:''" content] str_nat_1
  by (auto simp: check1_def Let_def)

lemma summary_errors: "errors f \<noteq> [] \<Longrightarrow> summary spec f = Inr False"
  by (simp add: summary_def)

lemma exit_code_check1:
  assumes "check1 content \<noteq> []"
  shows "exit_code safe_load (Some content) = 1
         \<and> (case validate_openapi_spec safe_load (Some content) of
               Inr (ok, es, ws) \<Rightarrow> \<not> ok
             | Inl e \<Rightarrow> True)"
proof (cases "safe_load content")
  case None
  then show ?thesis by (simp add: exit_code_def validate_openapi_spec_def)
next
  case (Some spec)
  show ?thesis
  proof (cases "run_checks content spec")
    case (Inl e)
    with Some show ?thesis by (simp add: exit_code_def validate_openapi_spec_def)
  next
    case (Inr f)
    from run_checks_parts[OF Inr] assms have "errors f \<noteq> []" by auto
    from summary_errors[OF this] Some Inr show ?thesis
      by (simp add: exit_code_def validate_openapi_spec_def)
  qed
qed

section \<open>Check 5: response schemas\<close>

lemma schemas_loop_length:
  "schemas_loop spec ts acc = Inr xs \<Longrightarrow>
   length xs = length acc + length (filter (lacks_required spec) ts)"
proof (induction ts arbitrary: acc)
  case Nil
  then show ?case by simp
next
  case (Cons t ts)
  obtain m p s ex where t: "t = (m, p, s, ex)" by (cases t)
  from Cons.prems t obtain req missing where
    r: "required_of spec m p s = Inr req" and mf: "missing_fields ex req = Inr missing"
    and rest: "schemas_loop spec ts
                 (if missing \<noteq> [] then
                    acc @ [m @ '' '' @ p @ '' '' @ s @ '': missing required fields ''
                             @ repr_fields missing]
                  else acc) = Inr xs"
    by (auto split: sum.splits)
  have l: "lacks_required spec t = (missing \<noteq> [])"
    using t r mf by (simp add: lacks_required_def)
  from Cons.IH[OF rest] l show ?case by (cases "missing = []") auto
qed

lemma check5_result:
  assumes "check5 spec = Inr ws"
  shows "ws = (if length (filter (lacks_required spec) responses_to_check) = 0 then []
               else [''Found ''
                       @ str_nat (length (filter (lacks_required spec) responses_to_check))
                       @ '' response schemas with potentially missing required fields''])"
proof -
  from assms obtain xs where loop: "schemas_loop spec responses_to_check [] = Inr xs"
    and ws: "ws = (if xs \<noteq> [] then
                     [''Found '' @ str_nat (length xs)
                        @ '' response schemas with potentially missing required fields'']
                   else [])"
    by (auto simp: check5_def split: sum.splits)
  from schemas_loop_length[OF loop]
  have "length xs = length (filter (lacks_required spec) responses_to_check)" by simp
  with ws show ?thesis by (cases xs) auto
qed

lemma schemas_loop_declared:
  "list_all (baseline_declared spec) ts \<Longrightarrow> schemas_loop spec ts acc = Inr acc"
proof (induction ts arbitrary: acc)
  case Nil
  show ?case by simp
next
  case (Cons t ts)
  obtain m p s ex where t: "t = (m, p, s, ex)" by (cases t)
  from Cons.prems t have b: "baseline_declared spec (m, p, s, ex)" by simp
  then obtain declared where r: "required_of spec m p s = Inr (YSeq declared)"
    and a: "list_all (\<lambda>f. YStr f \<in> set declared) ex"
    by (auto simp: baseline_declared_def split: sum.splits yaml.splits)
  from a have "filter (\<lambda>f. YStr f \<notin> set declared) ex = []"
    by (auto simp: list_all_iff filter_empty_conv)
  then have mf: "missing_fields ex (YSeq declared) = Inr []"
    by (simp add: missing_fields_seq)
  from Cons.prems have "list_all (baseline_declared spec) ts" by simp
  from Cons.IH[OF this] t r mf show ?case by simp
qed

section \<open>Check 4: the userId parameter\<close>

lemma operation_at_get:
  assumes "operation_at spec m p = Some ep"
  shows "\<exists>paths item. py_subscript spec ''paths'' = Inr paths
           \<and> py_get paths p (YMap []) = Inr item
           \<and> py_get item m (YMap []) = Inr ep"
proof -
  from assms obtain root where s: "spec = YMap root"
    by (cases spec) (auto simp: operation_at_def)
  with assms obtain v where g: "dict_get root ''paths'' = Some v"
    by (cases "dict_get root ''paths''") (auto simp: operation_at_def)
  with assms s obtain paths where v: "v = YMap paths"
    by (cases v) (auto simp: operation_at_def)
  with assms s g obtain w where h: "dict_get paths p = Some w"
    by (cases "dict_get paths p") (auto simp: operation_at_def)
  with assms s g v obtain item where w: "w = YMap item"
    by (cases w) (auto simp: operation_at_def)
  with assms s g v h have "dict_get item m = Some ep"
    by (simp add: operation_at_def)
  with s g v h w show ?thesis by simp
qed

lemma has_userId_operation:
  assumes "operation_at spec m p = Some (YMap opn)"
  shows "has_userId spec m p =
           (case py_iter (case dict_get opn ''parameters'' of None \<Rightarrow> YSeq [] | Some v \<Rightarrow> v) of
              Inl e \<Rightarrow> Inl e
            | Inr ps \<Rightarrow> Inr (list_ex names_userId ps))"
proof -
  from operation_at_get[OF assms] obtain paths item where
    "py_subscript spec ''paths'' = Inr paths" "py_get paths p (YMap []) = Inr item"
    "py_get item m (YMap []) = Inr (YMap opn)" by blast
  then show ?thesis
    by (simp add: has_userId_def split: option.splits)
qed


lemma has_userId_no_parameters:
  assumes "operation_at spec m p = Some (YMap opn)" and "dict_get opn ''parameters'' = None"
  shows "has_userId spec m p = Inr False"
  using has_userId_operation[OF assms(1)] assms(2) by simp

lemma has_userId_absent:
  assumes "dict_get root ''paths'' = Some (YMap paths)"
    and "dict_get paths p = None \<or> (dict_get paths p = Some (YMap item) \<and> dict_get item m = None)"
  shows "has_userId (YMap root) m p = Inr False"
  using assms by (auto simp: has_userId_def dict_get_def)

lemma missing_params_loop_result:
  "missing_params_loop spec eps acc = Inr ms \<Longrightarrow>
   ms = acc @ map endpoint_label
              (filter (\<lambda>ep. has_userId spec (fst ep) (snd ep) = Inr False) eps)"
proof (induction eps arbitrary: acc)
  case Nil
  then show ?case by simp
next
  case (Cons ep eps)
  obtain m p where ep: "ep = (m, p)" by (cases ep)
  from Cons.prems ep obtain h where h: "has_userId spec m p = Inr h"
    and rest: "missing_params_loop spec eps
                 (if \<not> h then acc @ [str_upper m @ '' '' @ p] else acc) = Inr ms"
    by (auto split: sum.splits)
  from Cons.IH[OF rest] h ep show ?case
    by (cases h) (auto simp: endpoint_label_def)
qed


lemma check4_result:
  assumes "check4 spec = Inr es"
  shows "es = (if missing_endpoints spec = [] then []
               else [''Found '' @ str_nat (length (missing_endpoints spec))
                       @ '' user endpoints missing userId parameter: ''
                       @ join '', '' (missing_endpoints spec)])"
proof -
  from assms obtain ms where loop: "missing_params_loop spec user_endpoints [] = Inr ms"
    and es: "es = (if ms \<noteq> [] then
                     [''Found '' @ str_nat (length ms)
                        @ '' user endpoints missing userId parameter: '' @ join '', '' ms]
                   else [])"
    by (auto simp: check4_def split: sum.splits)
  from missing_params_loop_result[OF loop] have "ms = missing_endpoints spec"
    by (simp add: missing_endpoints_def)
  with es show ?thesis by simp
qed

section \<open>Check 3: operation identifiers\<close>

lemma check3_methods_identified:
  "list_all identified ms \<Longrightarrow>
   check3_methods path ms (pwo, n) = Inr (pwo, n + length (filter is_endpoint ms))"
proof (induction ms arbitrary: n)
  case Nil
  show ?case by simp
next
  case (Cons kv ms)
  obtain k d where kv: "kv = (k, d)" by (cases kv)
  from Cons.prems have rest: "list_all identified ms" by simp
  from Cons.prems kv have i: "identified (k, d)" by simp
  consider (params) "k = SStr ''parameters''"
    | (other) "k \<noteq> SStr ''parameters''" "\<not> is_dict d"
    | (endpoint) "k \<noteq> SStr ''parameters''" "is_dict d"
    by blast
  then show ?case
  proof cases
    case params
    with Cons.IH[OF rest, of n] kv show ?thesis by (simp add: is_endpoint_def)
  next
    case other
    with Cons.IH[OF rest, of n] kv show ?thesis by (simp add: is_endpoint_def)
  next
    case endpoint
    with i have "case d of YMap kvs \<Rightarrow> has_key ''operationId'' kvs | _ \<Rightarrow> False"
      by (simp add: identified_def)
    with endpoint Cons.IH[OF rest, of "Suc n"] kv show ?thesis
      by (simp add: is_endpoint_def)
  qed
qed

lemma check3_paths_identified:
  "all_identified paths \<Longrightarrow>
   check3_paths paths (pwo, n) = Inr (pwo, n + endpoint_count paths)"
proof (induction paths arbitrary: n)
  case Nil
  show ?case by (simp add: endpoint_count_def)
next
  case (Cons kv paths)
  obtain path item where kv: "kv = (path, item)" by (cases kv)
  from Cons.prems kv obtain ms where item: "item = YMap ms" and ids: "list_all identified ms"
    by (cases item) (auto simp: all_identified_def)
  from Cons.prems have rest: "all_identified paths" by (simp add: all_identified_def)
  from check3_methods_identified[OF ids, of path pwo n]
    Cons.IH[OF rest, of "n + length (filter is_endpoint ms)"] kv item
  show ?case by (simp add: endpoint_count_def)
qed

lemma check3_methods_count:
  "check3_methods path ms (pwo, n) = Inr (pwo', n') \<Longrightarrow>
   n' = n + length (filter is_endpoint ms)"
proof (induction ms arbitrary: pwo n)
  case Nil
  then show ?case by simp
next
  case (Cons kv ms)
  obtain k d where kv: "kv = (k, d)" by (cases kv)
  consider (params) "k = SStr ''parameters''"
    | (other) "k \<noteq> SStr ''parameters''" "\<not> is_dict d"
    | (endpoint) "k \<noteq> SStr ''parameters''" "is_dict d"
    by blast
  then show ?case
  proof cases
    case params
    with Cons.prems kv have "check3_methods path ms (pwo, n) = Inr (pwo', n')" by simp
    from Cons.IH[OF this] kv params show ?thesis by (simp add: is_endpoint_def)
  next
    case other
    with Cons.prems kv have "check3_methods path ms (pwo, n) = Inr (pwo', n')" by simp
    from Cons.IH[OF this] kv other show ?thesis by (simp add: is_endpoint_def)
  next
    case endpoint
    with Cons.prems kv obtain pwo1 where
      "check3_methods path ms (pwo1, Suc n) = Inr (pwo', n')"
      by (auto split: if_splits sum.splits)
    from Cons.IH[OF this] kv endpoint show ?thesis by (simp add: is_endpoint_def)
  qed
qed

lemma check3_paths_count:
  "check3_paths paths (pwo, n) = Inr (pwo', n') \<Longrightarrow> n' = n + endpoint_count paths"
proof (induction paths arbitrary: pwo n)
  case Nil
  then show ?case by (simp add: endpoint_count_def)
next
  case (Cons kv paths)
  obtain path item where kv: "kv = (path, item)" by (cases kv)
  from Cons.prems kv obtain ms where item: "item = YMap ms"
    by (cases item) auto
  from Cons.prems kv item obtain pwo1 n1 where
    a: "check3_methods path ms (pwo, n) = Inr (pwo1, n1)"
    and b: "check3_paths paths (pwo1, n1) = Inr (pwo', n')"
    by (auto split: sum.splits)
  from check3_methods_count[OF a] Cons.IH[OF b] kv item show ?case
    by (simp add: endpoint_count_def)
qed

lemma check3_count:
  assumes "dict_get root ''paths'' = Some (YMap paths)" and "check3 (YMap root) = Inr (es, n)"
  shows "n = endpoint_count paths"
proof -
  from assms obtain pwo where "check3_paths paths ([], 0) = Inr (pwo, n)"
    by (auto simp: check3_def split: sum.splits prod.splits)
  from check3_paths_count[OF this] show ?thesis
    by simp
qed

section \<open>The summary\<close>

lemma summary_has_versions:
  "has_versions spec \<Longrightarrow> summary spec f = Inr (errors f = [])"
  by (cases spec)
     (auto simp: has_versions_def summary_def has_key_def split: option.splits yaml.splits)

lemma summary_result: "summary spec f = Inr ok \<Longrightarrow> ok = (errors f = [])"
  by (auto simp: summary_def split: if_splits sum.splits)

text \<open>A load error returns failure without findings. On a loaded document that has the
  version fields and on which the checks run through, and whenever the run on a loaded
  document returns at all, the verdict is that the errors collection is empty, and the
  exit code is 0 exactly then.\<close>

lemma verdict_and_exit_code:
  "validate_openapi_spec safe_load None = Inr (False, [], [])
   \<and> exit_code safe_load None = 1
   \<and> (safe_load content = None
        \<longrightarrow> validate_openapi_spec safe_load (Some content) = Inr (False, [], [])
            \<and> exit_code safe_load (Some content) = 1)
   \<and> (safe_load' content' = Some spec \<and> run_checks content' spec = Inr f \<and> has_versions spec
        \<longrightarrow> validate_openapi_spec safe_load' (Some content')
              = Inr (errors f = [], errors f, warnings f)
            \<and> exit_code safe_load' (Some content') = (if errors f = [] then 0 else 1))
   \<and> (safe_load'' content'' = Some spec''
       \<and> validate_openapi_spec safe_load'' (Some content'') = Inr (ok, es, ws)
        \<longrightarrow> ok = (es = [])
            \<and> exit_code safe_load'' (Some content'') = (if es = [] then 0 else 1))"
proof (intro conjI impI)
  show "validate_openapi_spec safe_load None = Inr (False, [], [])"
    by (simp add: validate_openapi_spec_def)
  then show "exit_code safe_load None = 1"
    by (simp add: exit_code_def)
next
  assume "safe_load content = None"
  then show v: "validate_openapi_spec safe_load (Some content) = Inr (False, [], [])"
    by (simp add: validate_openapi_spec_def)
  then show "exit_code safe_load (Some content) = 1"
    by (simp add: exit_code_def)
next
  assume a: "safe_load' content' = Some spec \<and> run_checks content' spec = Inr f
               \<and> has_versions spec"
  then have "summary spec f = Inr (errors f = [])"
    by (simp add: summary_has_versions)
  with a show v: "validate_openapi_spec safe_load' (Some content')
              = Inr (errors f = [], errors f, warnings f)"
    by (simp add: validate_openapi_spec_def)
  then show "exit_code safe_load' (Some content') = (if errors f = [] then 0 else 1)"
    by (simp add: exit_code_def)
next
  assume a: "safe_load'' content'' = Some spec''
               \<and> validate_openapi_spec safe_load'' (Some content'') = Inr (ok, es, ws)"
  then obtain f where s: "summary spec'' f = Inr ok" and e: "es = errors f"
    by (auto simp: validate_openapi_spec_def split: sum.splits)
  from summary_result[OF s] e show r: "ok = (es = [])"
    by simp
  from a r show "exit_code safe_load'' (Some content'') = (if es = [] then 0 else 1)"
    by (simp add: exit_code_def)
qed

text \<open>The compliant document passes without findings; with \<^verbatim>\<open>total\<close> left out of the
  required list of the products response there is one warning and the run still
  succeeds.\<close>

lemma scenario_runs:
  "validate_openapi_spec (\<lambda>t. Some compliant_doc) (Some []) = Inr (True, [], [])
   \<and> exit_code (\<lambda>t. Some compliant_doc) (Some []) = 0
   \<and> validate_openapi_spec (\<lambda>t. Some advisory_doc) (Some [])
       = Inr (True, [],
           [''Found 1 response schemas with potentially missing required fields''])
   \<and> exit_code (\<lambda>t. Some advisory_doc) (Some []) = 0"
  by code_simp

section \<open>The claims\<close>

text \<open>
  Claim C1, as amended. The checks are not wrapped: an exception raised in a check leaves
  \<^verbatim>\<open>validate_openapi_spec\<close>. On every document of the shape of the interface
  description (\<open>wf_document\<close>) and every raw text, checks 1 to 5 run to completion. A
  document that is a mapping without the \<^verbatim>\<open>paths\<close> key raises KeyError in check 3, and
  one with a path whose value is not a mapping raises AttributeError in check 3; in both
  cases the run ends there, without findings and without checks 4 and 5.
\<close>

theorem run_checks_completes_on_shape:
  "(wf_document spec \<longrightarrow> (\<exists>f. run_checks content spec = Inr f))
   \<and> (dict_get root ''paths'' = None \<longrightarrow> run_checks content (YMap root) = Inl KeyError)
   \<and> (dict_get root' ''paths'' = Some (YMap paths) \<and> (path, v) \<in> set paths \<and> \<not> is_dict v
        \<longrightarrow> run_checks content (YMap root') = Inl AttributeError)"
proof (intro conjI impI)
  assume "wf_document spec"
  then show "\<exists>f. run_checks content spec = Inr f"
    by (rule run_checks_wf)
next
  assume "dict_get root ''paths'' = None"
  then show "run_checks content (YMap root) = Inl KeyError"
    by (simp add: check3_no_paths run_checks_check3_error)
next
  assume "dict_get root' ''paths'' = Some (YMap paths) \<and> (path, v) \<in> set paths \<and> \<not> is_dict v"
  then have "check3 (YMap root') = Inl AttributeError"
    using check3_path_not_dict by blast
  then show "run_checks content (YMap root') = Inl AttributeError"
    by (rule run_checks_check3_error)
qed

theorem run_checks_completes_on_shape_witness:
  "wf_document compliant_doc
   \<and> (\<exists>f. run_checks two_typos_text compliant_doc = Inr f)
   \<and> dict_get [] ''paths'' = None
   \<and> run_checks two_typos_text (YMap []) = Inl KeyError
   \<and> dict_get [(SStr ''paths'', YMap [(SStr ''/a'', YStr ''x'')])] ''paths''
        = Some (YMap [(SStr ''/a'', YStr ''x'')])
   \<and> (SStr ''/a'', YStr ''x'') \<in> set [(SStr ''/a'', YStr ''x'')]
   \<and> \<not> is_dict (YStr ''x'')
   \<and> run_checks two_typos_text (YMap [(SStr ''paths'', YMap [(SStr ''/a'', YStr ''x'')])])
        = Inl AttributeError"
proof -
  have h1: "wf_document compliant_doc"
    by code_simp
  have h2: "dict_get [] ''paths'' = None"
    by (simp add: dict_get_def)
  have h3: "dict_get [(SStr ''paths'', YMap [(SStr ''/a'', YStr ''x'')])] ''paths''
              = Some (YMap [(SStr ''/a'', YStr ''x'')])"
    by (simp add: dict_get_def)
  have h4: "(SStr ''/a'', YStr ''x'') \<in> set [(SStr ''/a'', YStr ''x'')]"
    by simp
  have h5: "\<not> is_dict (YStr ''x'')"
    by simp
  from run_checks_completes_on_shape
         [of compliant_doc two_typos_text "[]"
             "[(SStr ''paths'', YMap [(SStr ''/a'', YStr ''x'')])]"
             "[(SStr ''/a'', YStr ''x'')]" "SStr ''/a''" "YStr ''x''"]
       h1 h2 h3 h4 h5
  show ?thesis
    by blast
qed

text \<open>
  Claim C1 as stated fails: the document without \<^verbatim>\<open>paths\<close> and the document whose path
  value is a string both end in an exception, and no finding of any check is returned.
\<close>

theorem run_checks_raises_counterexample:
  "run_checks [] (YMap []) = Inl KeyError
   \<and> run_checks [] string_path_doc = Inl AttributeError"
  by code_simp

text \<open>
  Claim C10. Each of checks 1 to 4 appends at most one finding to the errors collection
  and check 5 at most one to the warnings collection: a run that returns has at most 4
  errors and at most 1 warning.
\<close>

theorem findings_bounded:
  assumes "validate_openapi_spec safe_load contents = Inr (success, es, ws)"
  shows "length es \<le> 4 \<and> length ws \<le> 1"
proof (cases contents)
  case None
  with assms show ?thesis
    by (simp add: validate_openapi_spec_def)
next
  case (Some content)
  show ?thesis
  proof (cases "safe_load content")
    case None
    with Some assms show ?thesis
      by (simp add: validate_openapi_spec_def)
  next
    case (Some spec)
    with \<open>contents = Some content\<close> assms obtain f where
      r: "run_checks content spec = Inr f" and "es = errors f" "ws = warnings f"
      by (auto simp: validate_openapi_spec_def split: sum.splits)
    with run_checks_bounds[OF r] show ?thesis
      by simp
  qed
qed

theorem findings_bounded_witness:
  "validate_openapi_spec (\<lambda>t. Some bare_operation_doc) (Some two_typos_text) =
     Inr (False,
          [''Found 1 instances of incorrect 'operationID:' (should be 'operationId:')'',
           ''Found 1 instances of incorrect 'Parameters:' (should be 'parameters:')'',
           ''Found 1 endpoints without operationId: GET /a'',
           ''Found 4 user endpoints missing userId parameter: GET /user/{userId}, DELETE /user/{userId}, GET /user/{userId}/points, POST /user/{userId}/points''],
          [''Found 4 response schemas with potentially missing required fields''])
   \<and> length
        [''Found 1 instances of incorrect 'operationID:' (should be 'operationId:')'',
         ''Found 1 instances of incorrect 'Parameters:' (should be 'parameters:')'',
         ''Found 1 endpoints without operationId: GET /a'',
         ''Found 4 user endpoints missing userId parameter: GET /user/{userId}, DELETE /user/{userId}, GET /user/{userId}/points, POST /user/{userId}/points'']
        \<le> 4
   \<and> length [''Found 4 response schemas with potentially missing required fields'']
        \<le> (1::nat)"
proof -
  have h: "validate_openapi_spec (\<lambda>t. Some bare_operation_doc) (Some two_typos_text) =
     Inr (False,
          [''Found 1 instances of incorrect 'operationID:' (should be 'operationId:')'',
           ''Found 1 instances of incorrect 'Parameters:' (should be 'parameters:')'',
           ''Found 1 endpoints without operationId: GET /a'',
           ''Found 4 user endpoints missing userId parameter: GET /user/{userId}, DELETE /user/{userId}, GET /user/{userId}/points, POST /user/{userId}/points''],
          [''Found 4 response schemas with potentially missing required fields''])"
    by code_simp
  from findings_bounded[OF h] h show ?thesis
    by simp
qed

text \<open>
  Claim C7. A raw text with no occurrence of \<^verbatim>\<open>operationID:\<close> and no occurrence of a
  newline, two spaces and \<^verbatim>\<open>Parameters:\<close> gets no finding from checks 1 and 2. A text
  with exactly one occurrence of \<^verbatim>\<open>operationID:\<close> (such as the single line
  \<^verbatim>\<open>operationID: getUser\<close>) gets exactly one error from check 1, and the run fails: the
  exit code is 1 and a run that returns, returns failure.
\<close>

theorem casing_checks:
  "(occurrences ''operationID:'' content = 0 \<and> occurrences parameters_pattern content = 0
      \<longrightarrow> check1 content = [] \<and> check2 content = [])
   \<and> (occurrences ''operationID:'' content' = 1
      \<longrightarrow> check1 content'
            = [''Found 1 instances of incorrect 'operationID:' (should be 'operationId:')'']
          \<and> exit_code safe_load (Some content') = 1
          \<and> (case validate_openapi_spec safe_load (Some content') of
                Inr (ok, es, ws) \<Rightarrow> \<not> ok
              | Inl e \<Rightarrow> True))"
proof (intro conjI impI)
  assume "occurrences ''operationID:'' content = 0 \<and> occurrences parameters_pattern content = 0"
  then show "check1 content = []" and "check2 content = []"
    by (simp_all add: check1_none check2_none)
next
  assume one: "occurrences ''operationID:'' content' = 1"
  then show c1: "check1 content'
            = [''Found 1 instances of incorrect 'operationID:' (should be 'operationId:')'']"
    by (rule check1_one)
  then have ne: "check1 content' \<noteq> []"
    by simp
  from exit_code_check1[OF ne, of safe_load]
  show "exit_code safe_load (Some content') = 1"
    and "case validate_openapi_spec safe_load (Some content') of
           Inr (ok, es, ws) \<Rightarrow> \<not> ok
         | Inl e \<Rightarrow> True"
    by simp_all
qed

theorem casing_checks_witness:
  "occurrences ''operationID:'' ''openapi: 3.0.3'' = 0
   \<and> occurrences parameters_pattern ''openapi: 3.0.3'' = 0
   \<and> check1 ''openapi: 3.0.3'' = []
   \<and> check2 ''openapi: 3.0.3'' = []
   \<and> occurrences ''operationID:'' ''operationID: getUser'' = 1
   \<and> check1 ''operationID: getUser''
        = [''Found 1 instances of incorrect 'operationID:' (should be 'operationId:')'']
   \<and> exit_code (\<lambda>t. Some compliant_doc) (Some ''operationID: getUser'') = 1
   \<and> validate_openapi_spec (\<lambda>t. Some compliant_doc) (Some ''operationID: getUser'')
        = Inr (False,
            [''Found 1 instances of incorrect 'operationID:' (should be 'operationId:')''], [])"
proof -
  have h1: "occurrences ''operationID:'' ''openapi: 3.0.3'' = 0"
    by code_simp
  have h2: "occurrences parameters_pattern ''openapi: 3.0.3'' = 0"
    by code_simp
  have h3: "occurrences ''operationID:'' ''operationID: getUser'' = 1"
    by code_simp
  have h4: "validate_openapi_spec (\<lambda>t. Some compliant_doc) (Some ''operationID: getUser'')
        = Inr (False,
            [''Found 1 instances of incorrect 'operationID:' (should be 'operationId:')''], [])"
    by code_simp
  from casing_checks
         [of "''openapi: 3.0.3''" "''operationID: getUser''" "\<lambda>t. Some compliant_doc"]
       h1 h2 h3 h4
  show ?thesis
    by simp
qed

text \<open>
  Claim C2, as amended. Check 5 aggregates: with \<open>k\<close> the number of fixed response tuples
  whose expected-minus-declared difference is not empty, a run that returns has no
  warning when \<open>k = 0\<close> and exactly one warning, which states \<open>k\<close>, otherwise. The
  finding goes to the warnings collection; the errors collection holds what checks 1
  to 4 appended and nothing of check 5.
\<close>

theorem check5_one_aggregated_warning:
  assumes "run_checks content spec = Inr f"
  shows "warnings f =
           (if length (filter (lacks_required spec) responses_to_check) = 0 then []
            else [''Found ''
                    @ str_nat (length (filter (lacks_required spec) responses_to_check))
                    @ '' response schemas with potentially missing required fields''])
         \<and> (\<exists>e3 n e4. check3 spec = Inr (e3, n) \<and> check4 spec = Inr e4
               \<and> errors f = check1 content @ check2 content @ e3 @ e4)"
proof -
  from run_checks_parts[OF assms] obtain e3 n e4 w5 where
    c3: "check3 spec = Inr (e3, n)" and c4: "check4 spec = Inr e4"
    and c5: "check5 spec = Inr w5"
    and f: "f = \<lparr>errors = check1 content @ check2 content @ e3 @ e4,
                  warnings = w5, total_endpoints = n\<rparr>"
    by blast
  from check5_result[OF c5] f have
    "warnings f =
       (if length (filter (lacks_required spec) responses_to_check) = 0 then []
        else [''Found ''
                @ str_nat (length (filter (lacks_required spec) responses_to_check))
                @ '' response schemas with potentially missing required fields''])"
    by simp
  moreover from c3 c4 f have
    "\<exists>e3 n e4. check3 spec = Inr (e3, n) \<and> check4 spec = Inr e4
       \<and> errors f = check1 content @ check2 content @ e3 @ e4"
    by simp
  ultimately show ?thesis
    by blast
qed

theorem check5_one_aggregated_warning_witness:
  "run_checks [] empty_paths_doc =
     Inr \<lparr>errors = [''Found 4 user endpoints missing userId parameter: GET /user/{userId}, DELETE /user/{userId}, GET /user/{userId}/points, POST /user/{userId}/points''],
          warnings = [''Found 4 response schemas with potentially missing required fields''],
          total_endpoints = 0\<rparr>
   \<and> length (filter (lacks_required empty_paths_doc) responses_to_check) = 4
   \<and> str_nat 4 = ''4''"
proof -
  have h: "run_checks [] empty_paths_doc =
     Inr \<lparr>errors = [''Found 4 user endpoints missing userId parameter: GET /user/{userId}, DELETE /user/{userId}, GET /user/{userId}/points, POST /user/{userId}/points''],
          warnings = [''Found 4 response schemas with potentially missing required fields''],
          total_endpoints = 0\<rparr>"
    by code_simp
  have k: "length (filter (lacks_required empty_paths_doc) responses_to_check) = 4"
    by code_simp
  have n: "str_nat 4 = ''4''"
    by code_simp
  from check5_one_aggregated_warning[OF h] h k n show ?thesis
    by simp
qed

text \<open>
  Claim C2 as stated fails: in the document with an empty \<^verbatim>\<open>paths\<close> mapping all four
  tuples have a non-empty difference, and check 5 records one warning, not four.
\<close>

theorem check5_per_tuple_counterexample:
  "length (filter (lacks_required empty_paths_doc) responses_to_check) = 4
   \<and> check5 empty_paths_doc
       = Inr [''Found 4 response schemas with potentially missing required fields'']"
  by code_simp

text \<open>
  Claim C6. If, for each of the four fixed response tuples, the navigation
  \<^verbatim>\<open>paths[path][method].responses[status].content["application/json"].schema.required\<close>
  (an empty mapping or sequence for a missing key) reaches a list that has every expected
  field name, check 5 produces no finding.
\<close>

theorem check5_silent_on_declared_baselines:
  assumes "list_all (baseline_declared spec) responses_to_check"
  shows "check5 spec = Inr []"
  using schemas_loop_declared[OF assms, of "[]"]
  by (simp add: check5_def)

theorem check5_silent_on_declared_baselines_witness:
  "list_all (baseline_declared compliant_doc) responses_to_check
   \<and> check5 compliant_doc = Inr []"
proof -
  have h: "list_all (baseline_declared compliant_doc) responses_to_check"
    by code_simp
  from check5_silent_on_declared_baselines[OF h] h show ?thesis
    by simp
qed



text \<open>
  Claim C9. For a fixed user endpoint whose path is not in the \<^verbatim>\<open>paths\<close> mapping, or
  whose method is not under that path, check 4 finds no \<^verbatim>\<open>userId\<close> parameter, the same
  answer it gives for a document that has the endpoint without a \<^verbatim>\<open>parameters\<close> list. The
  endpoint is among the missing ones, and when check 4 returns, its single error lists it.
\<close>

theorem check4_reports_absent_endpoint:
  assumes "dict_get root ''paths'' = Some (YMap paths)"
    and "(m, p) \<in> set user_endpoints"
    and "dict_get paths p = None
         \<or> (dict_get paths p = Some (YMap item) \<and> dict_get item m = None)"
  shows "has_userId (YMap root) m p = Inr False
         \<and> has_userId (YMap [(SStr ''paths'', YMap [(SStr p, YMap [(SStr m, YMap [])])])]) m p
             = has_userId (YMap root) m p
         \<and> endpoint_label (m, p) \<in> set (missing_endpoints (YMap root))
         \<and> (case check4 (YMap root) of
               Inr es \<Rightarrow>
                 es = [''Found '' @ str_nat (length (missing_endpoints (YMap root)))
                         @ '' user endpoints missing userId parameter: ''
                         @ join '', '' (missing_endpoints (YMap root))]
             | Inl e \<Rightarrow> True)"
proof -
  have absent: "has_userId (YMap root) m p = Inr False"
    using assms(1,3) by (rule has_userId_absent)
  have "operation_at (YMap [(SStr ''paths'', YMap [(SStr p, YMap [(SStr m, YMap [])])])]) m p
          = Some (YMap [])"
    by (simp add: operation_at_def dict_get_def)
  moreover have "dict_get [] ''parameters'' = None"
    by (simp add: dict_get_def)
  ultimately have present:
    "has_userId (YMap [(SStr ''paths'', YMap [(SStr p, YMap [(SStr m, YMap [])])])]) m p
       = Inr False"
    by (rule has_userId_no_parameters)
  from absent assms(2) have listed: "endpoint_label (m, p) \<in> set (missing_endpoints (YMap root))"
    by (force simp: missing_endpoints_def)
  then have ne: "missing_endpoints (YMap root) \<noteq> []"
    by auto
  have "case check4 (YMap root) of
          Inr es \<Rightarrow>
            es = [''Found '' @ str_nat (length (missing_endpoints (YMap root)))
                    @ '' user endpoints missing userId parameter: ''
                    @ join '', '' (missing_endpoints (YMap root))]
        | Inl e \<Rightarrow> True"
  proof (cases "check4 (YMap root)")
    case (Inl e)
    then show ?thesis by simp
  next
    case (Inr es)
    from check4_result[OF Inr] ne Inr show ?thesis by simp
  qed
  with absent present listed show ?thesis
    by simp
qed

theorem check4_reports_absent_endpoint_witness:
  "dict_get [(SStr ''paths'', YMap [])] ''paths'' = Some (YMap [])
   \<and> (''get'', ''/user/{userId}'') \<in> set user_endpoints
   \<and> dict_get [] ''/user/{userId}'' = None
   \<and> has_userId empty_paths_doc ''get'' ''/user/{userId}'' = Inr False
   \<and> endpoint_label (''get'', ''/user/{userId}'') = ''GET /user/{userId}''
   \<and> ''GET /user/{userId}'' \<in> set (missing_endpoints empty_paths_doc)
   \<and> check4 empty_paths_doc
       = Inr [''Found 4 user endpoints missing userId parameter: GET /user/{userId}, DELETE /user/{userId}, GET /user/{userId}/points, POST /user/{userId}/points'']"
proof -
  have h1: "dict_get [(SStr ''paths'', YMap [])] ''paths'' = Some (YMap [])"
    by (simp add: dict_get_def)
  have h2: "(''get'', ''/user/{userId}'') \<in> set user_endpoints"
    by (simp add: user_endpoints_def)
  have h3: "dict_get [] ''/user/{userId}'' = None"
    by (simp add: dict_get_def)
  have h4: "endpoint_label (''get'', ''/user/{userId}'') = ''GET /user/{userId}''"
    by code_simp
  have h5: "check4 empty_paths_doc
       = Inr [''Found 4 user endpoints missing userId parameter: GET /user/{userId}, DELETE /user/{userId}, GET /user/{userId}/points, POST /user/{userId}/points'']"
    by code_simp
  from check4_reports_absent_endpoint[OF h1 h2 disjI1, OF h3] h1 h2 h3 h4 h5
  show ?thesis
    by (simp add: empty_paths_doc_def)
qed

text \<open>
  Claim C4. If every entry under every path, other than \<^verbatim>\<open>parameters\<close>, is a mapping
  with an \<^verbatim>\<open>operationId\<close>, check 3 produces no finding, and the endpoint count it reports
  is the number of entries whose key is not \<^verbatim>\<open>parameters\<close> and whose value is a mapping.
\<close>

theorem check3_silent_and_counts:
  assumes "dict_get root ''paths'' = Some (YMap paths)" and "all_identified paths"
  shows "check3 (YMap root) = Inr ([], endpoint_count paths)"
  using assms(1) check3_paths_identified[OF assms(2), of "[]" 0]
  by (simp add: check3_def)

theorem check3_silent_and_counts_witness:
  "dict_get [(SStr ''paths'', scenario_paths [])] ''paths'' = Some (scenario_paths [])
   \<and> scenario_paths [] = YMap
       [(SStr ''/products'', YMap [(SStr ''get'', operation ''listProducts'' [] [])]),
        (SStr ''/orders'',
           YMap [(SStr ''get'', operation ''listOrders'' [] [''orders'', ''total''])]),
        (SStr ''/user/{userId}'',
           YMap [(SStr ''get'', operation ''getUser'' [userId_param] []),
                 (SStr ''delete'', operation ''deleteUser'' [userId_param] [])]),
        (SStr ''/user/{userId}/points'',
           YMap [(SStr ''get'', operation ''getPoints'' [userId_param] [''loyaltyPoints'']),
                 (SStr ''post'', operation ''usePoints'' [userId_param]
                    [''remainingPoints''])])]
   \<and> check3 (YMap [(SStr ''paths'', scenario_paths [])]) = Inr ([], 6)"
proof -
  let ?paths =
    "[(SStr ''/products'', YMap [(SStr ''get'', operation ''listProducts'' [] [])]),
      (SStr ''/orders'',
         YMap [(SStr ''get'', operation ''listOrders'' [] [''orders'', ''total''])]),
      (SStr ''/user/{userId}'',
         YMap [(SStr ''get'', operation ''getUser'' [userId_param] []),
               (SStr ''delete'', operation ''deleteUser'' [userId_param] [])]),
      (SStr ''/user/{userId}/points'',
         YMap [(SStr ''get'', operation ''getPoints'' [userId_param] [''loyaltyPoints'']),
               (SStr ''post'', operation ''usePoints'' [userId_param]
                  [''remainingPoints''])])]"
  have h0: "scenario_paths [] = YMap ?paths"
    by (simp add: scenario_paths_def)
  have h1: "dict_get [(SStr ''paths'', scenario_paths [])] ''paths'' = Some (YMap ?paths)"
    by (simp add: dict_get_def scenario_paths_def)
  have h2: "all_identified ?paths"
    by code_simp
  have h3: "endpoint_count ?paths = 6"
    by code_simp
  from check3_silent_and_counts[OF h1 h2] h0 h1 h3 show ?thesis
    by simp
qed

text \<open>
  Claim C3. The exit code is meant to be 0 exactly when a loaded document ends the run
  with an empty errors collection, warnings or not. The run below breaks it. The first
  document passes all five checks with no error and no warning, but has neither
  \<^verbatim>\<open>openapi\<close> nor \<^verbatim>\<open>info\<close>: the branch of the summary that reports full success reads
  \<^verbatim>\<open>spec['openapi']\<close> for its printout, KeyError leaves the function, and the exit code
  is 1. The second document has the same paths and lacks the same two fields, but one
  required list is incomplete: its run has one warning, takes the other success branch,
  returns success, and the exit code is 0.
\<close>

theorem exit_code_one_with_empty_errors:
  "run_checks [] paths_only_doc = Inr \<lparr>errors = [], warnings = [], total_endpoints = 6\<rparr>
   \<and> validate_openapi_spec (\<lambda>t. Some paths_only_doc) (Some []) = Inl KeyError
   \<and> exit_code (\<lambda>t. Some paths_only_doc) (Some []) = 1
   \<and> validate_openapi_spec (\<lambda>t. Some paths_only_advisory_doc) (Some [])
       = Inr (True, [],
           [''Found 1 response schemas with potentially missing required fields''])
   \<and> exit_code (\<lambda>t. Some paths_only_advisory_doc) (Some []) = 0"
  by code_simp

end
